theory Spec2Isabelle
  imports Main "HOL-Library.AList"
begin

section \<open>The session broker of appium.js\<close>

text \<open>
  The file \<^verbatim>\<open>src/appium.js\<close> registers IPC listeners on the main process of an
  Electron application.  The listeners share five module-level variables
  (\<^verbatim>\<open>server\<close>, \<^verbatim>\<open>serverArgs\<close>, \<^verbatim>\<open>logWatcher\<close>, \<^verbatim>\<open>batchedLogs\<close>,
  \<^verbatim>\<open>sessionDrivers\<close>) and are \<^verbatim>\<open>async\<close> functions: each one runs on the single
  JavaScript thread until it reaches an \<^verbatim>\<open>await\<close> on a promise of an external
  collaborator (the embedded server, a remote driver), and is resumed when that promise
  settles.  Between the two, any other listener, timer callback or resumption may run.

  The embedding makes this explicit.  A state holds the module variables, the interval
  timers of the runtime, the suspended listeners with the promise each one waits for, and
  the trace of everything the module did to the outside (IPC messages sent, calls made on
  collaborators).  An input is something the runtime delivers to the module:
  an IPC message, a timer firing, a log line of the server, the settlement of a promise.
  \<open>step\<close> runs the code that one input triggers up to its next \<^verbatim>\<open>await\<close>.

  What is left to the environment: the result of every call on a collaborator arrives as
  the settlement of its promise, so a collaborator that throws before returning a promise
  is a promise that rejects; \<^verbatim>\<open>send\<close> on a window does not throw; a continuation that
  follows an already settled promise runs in the same turn, since no other listener can
  run before it.  The two listeners that only read the argument parser and the creation of
  the session window touch none of the shared variables and are not modelled; of the
  session window only its \<^verbatim>\<open>closed\<close> event is, which calls \<^verbatim>\<open>killSession\<close>.
\<close>

subsection \<open>Values\<close>

type_synonym requester = nat  \<comment> \<open>\<^verbatim>\<open>sender.id\<close>, the id of a window's web contents\<close>
type_synonym driver = nat     \<comment> \<open>identity of an object made by \<^verbatim>\<open>wd.promiseChainRemote\<close>\<close>
type_synonym timer = nat      \<comment> \<open>handle returned by \<^verbatim>\<open>setInterval\<close>\<close>
type_synonym addr = nat       \<comment> \<open>reference to an object of the heap\<close>
type_synonym promise = nat    \<comment> \<open>identity of a promise of a collaborator\<close>

text \<open>
  JavaScript values, as far as the module looks into them.  \<open>JObj\<close> is a plain object
  with its own enumerable properties in insertion order; \<open>JLogHandler\<close> is the closure
  \<^verbatim>\<open>(level, msg) => { batchedLogs.push({level, msg}); }\<close>; \<open>JHandle\<close> is a host
  object that has a \<^verbatim>\<open>close\<close> method (the value \<^verbatim>\<open>appiumServer\<close> resolves to).
\<close>

datatype jsval =
    JUndefined
  | JNull
  | JBool bool
  | JNum int
  | JStr string
  | JObj "(string \<times> jsval) list"
  | JLogHandler
  | JHandle nat

type_synonym obj = "(string \<times> jsval) list"

text \<open>
  Thrown values.  \<open>TypeError p\<close> is the error the runtime raises when the code reads or
  calls property \<open>p\<close> of \<^verbatim>\<open>undefined\<close>, of \<^verbatim>\<open>null\<close> or of a value that has no such
  method; \<open>Failure m\<close> is an error with message \<open>m\<close> with which a collaborator rejected.
\<close>

datatype js_error = TypeError string | Failure string

fun error_name :: "js_error \<Rightarrow> string" where
  "error_name (TypeError p) = ''TypeError''"
| "error_name (Failure m) = ''Error''"

fun message :: "js_error \<Rightarrow> string" where
  "message (TypeError p) = ''Cannot read property '' @ p"
| "message (Failure m) = m"

datatype outcome = Resolved jsval | Rejected js_error

fun truthy :: "jsval \<Rightarrow> bool" where
  "truthy JUndefined = False"
| "truthy JNull = False"
| "truthy (JBool b) = b"
| "truthy (JNum n) = (n \<noteq> 0)"
| "truthy (JStr s) = (s \<noteq> [])"
| "truthy (JObj kvs) = True"
| "truthy JLogHandler = True"
| "truthy (JHandle h) = True"

text \<open>
  \<^verbatim>\<open>Object.keys(v).length\<close> for a value that is neither undefined nor null: the own
  enumerable properties of an object, the indices of a string, none for a number or a
  boolean; closures and host objects are taken to have none.
\<close>

fun keys_length :: "jsval \<Rightarrow> nat" where
  "keys_length (JObj kvs) = length kvs"
| "keys_length (JStr s) = length s"
| "keys_length v = 0"

text \<open>\<^verbatim>\<open>o[k]\<close>: a missing property reads as \<^verbatim>\<open>undefined\<close>.\<close>

definition get_prop :: "obj \<Rightarrow> string \<Rightarrow> jsval" where
  "get_prop ob k = (case map_of ob k of None \<Rightarrow> JUndefined | Some v \<Rightarrow> v)"

type_synonym log_record = "jsval \<times> jsval"  \<comment> \<open>\<^verbatim>\<open>{level, msg}\<close>\<close>

text \<open>The creation parameters read from the payload of \<^verbatim>\<open>appium-create-new-session\<close>.\<close>

record session_args =
  desiredCapabilities :: jsval
  host :: jsval
  port :: jsval
  username :: jsval
  accessKey :: jsval
  https :: jsval

subsection \<open>What the module does to the outside\<close>

datatype target = Win | Sender requester

datatype event =
    AppiumStartOk
  | AppiumStartError string
  | AppiumStopOk
  | AppiumStopError string
  | AppiumLogLine "log_record list"
  | AppiumSessionDone
  | AppiumNewSessionSuccessful
  | AppiumNewSessionReady
  | AppiumNewSessionFailed
  | AppiumClientCommandResponse jsval jsval
  | AppiumClientCommandResponseError js_error

text \<open>Calls that return a promise of a collaborator.\<close>

datatype call =
    Quit driver
  | Init driver jsval
  | Method driver string "jsval list"
  | Source driver
  | TakeScreenshot driver
  | AppiumServer addr
  | ServerClose nat

datatype effect =
    Send target event
  | Invoke promise call
  | PromiseChainRemote driver jsval jsval jsval jsval jsval
  | UnhandledRejection js_error

subsection \<open>Suspended listeners\<close>

text \<open>
  \<^verbatim>\<open>killSession\<close> is awaited by the command listener only; its three other callers
  drop the promise it returns.
\<close>

datatype kill_caller = Detached | AwaitedByCommand

datatype cont =
    KillQuit requester kill_caller  \<comment> \<open>\<^verbatim>\<open>killSession\<close> at \<^verbatim>\<open>await sessionDrivers[id].quit()\<close>\<close>
  | CreateInit requester            \<comment> \<open>create-session listener at \<^verbatim>\<open>await p\<close>\<close>
  | CmdMethod requester driver      \<comment> \<open>command listener at \<^verbatim>\<open>await driver[methodName].apply(..)\<close>\<close>
  | CmdSource requester driver      \<comment> \<open>command listener at \<^verbatim>\<open>await driver.source()\<close>\<close>
  | CmdScreenshot requester driver jsval \<comment> \<open>command listener at \<^verbatim>\<open>await driver.takeScreenshot()\<close>\<close>
  | StartServer                     \<comment> \<open>start listener at \<^verbatim>\<open>await appiumServer(serverArgs, true)\<close>\<close>
  | StartClose                      \<comment> \<open>start listener at \<^verbatim>\<open>await server.close()\<close> in its catch\<close>
  | StopClose                       \<comment> \<open>stop listener at \<^verbatim>\<open>await server.close()\<close>\<close>

subsection \<open>State\<close>

record state =
  server :: jsval
  serverArgs :: "addr option"
  logWatcher :: "timer option"
  batchedLogs :: "log_record list"
  sessionDrivers :: "requester \<rightharpoonup> driver"
  heap :: "addr \<rightharpoonup> obj"
  timers :: "timer set"
  next_timer :: nat
  next_driver :: nat
  next_promise :: nat
  pending :: "(promise \<times> cont) list"
  trace :: "effect list"

definition initial :: "(addr \<rightharpoonup> obj) \<Rightarrow> state" where
  "initial h = \<lparr> server = JNull, serverArgs = None, logWatcher = None, batchedLogs = [],
     sessionDrivers = Map.empty, heap = h, timers = {}, next_timer = 0, next_driver = 0,
     next_promise = 0, pending = [], trace = [] \<rparr>"

definition emit :: "effect \<Rightarrow> state \<Rightarrow> state" where
  "emit e s = s\<lparr>trace := trace s @ [e]\<rparr>"

definition send :: "target \<Rightarrow> event \<Rightarrow> state \<Rightarrow> state" where
  "send t ev s = emit (Send t ev) s"

text \<open>
  Calling a collaborator and awaiting the promise it returns: the call is recorded and
  the rest of the listener is parked under a fresh promise.
\<close>

definition await :: "call \<Rightarrow> cont \<Rightarrow> state \<Rightarrow> state" where
  "await c k s = s\<lparr>trace := trace s @ [Invoke (next_promise s) c],
                   pending := pending s @ [(next_promise s, k)],
                   next_promise := Suc (next_promise s)\<rparr>"

definition setInterval :: "state \<Rightarrow> state" where
  "setInterval s = s\<lparr>timers := insert (next_timer s) (timers s),
                     logWatcher := Some (next_timer s),
                     next_timer := Suc (next_timer s)\<rparr>"

text \<open>\<^verbatim>\<open>clearInterval(logWatcher)\<close>; the variable keeps the stale handle.\<close>

definition clearInterval :: "state \<Rightarrow> state" where
  "clearInterval s = s\<lparr>timers := timers s - set_option (logWatcher s)\<rparr>"

subsection \<open>The listeners, up to their first await\<close>

definition killSession :: "requester \<Rightarrow> kill_caller \<Rightarrow> state \<Rightarrow> state" where
  "killSession sender caller s =
     (case sessionDrivers s sender of
        Some d \<Rightarrow> await (Quit d) (KillQuit sender caller) s
      | None \<Rightarrow> s)"

text \<open>
  \<^verbatim>\<open>server.close()\<close> inside a \<^verbatim>\<open>try\<close>: either the call is made and awaited under
  \<open>k\<close>, or the property access throws at once.
\<close>

definition server_close :: "cont \<Rightarrow> state \<Rightarrow> js_error + state" where
  "server_close k s =
     (case server s of
        JHandle h \<Rightarrow> Inr (await (ServerClose h) k s)
      | _ \<Rightarrow> Inl (TypeError ''close''))"

definition normalize_args :: "obj \<Rightarrow> obj" where
  "normalize_args ob =
     (let ob1 = (if truthy (get_prop ob ''defaultCapabilities'')
                    \<and> keys_length (get_prop ob ''defaultCapabilities'') = 0
                 then AList.delete ''defaultCapabilities'' ob else ob);
          ob2 = AList.update ''logHandler'' JLogHandler ob1
      in AList.update ''throwInsteadOfExit'' (JBool True) ob2)"

definition connectStartServer :: "addr \<Rightarrow> state \<Rightarrow> state" where
  "connectStartServer args s =
     (case heap s args of
        None \<Rightarrow> emit (UnhandledRejection (TypeError ''defaultCapabilities'')) s
      | Some ob \<Rightarrow>
          let s1 = s\<lparr>heap := (heap s)(args \<mapsto> normalize_args ob)\<rparr>;
              s2 = setInterval s1;
              s3 = s2\<lparr>serverArgs := Some args\<rparr>
          in await (AppiumServer args) StartServer s3)"

definition connectStopServer :: "state \<Rightarrow> state" where
  "connectStopServer s =
     (case server_close StopClose s of
        Inr s' \<Rightarrow> s'
      | Inl e \<Rightarrow> clearInterval (send Win (AppiumStopError (message e)) s))"

definition connectCreateNewSession :: "requester \<Rightarrow> session_args \<Rightarrow> state \<Rightarrow> state" where
  "connectCreateNewSession r args s =
     (let s1 = (if sessionDrivers s r \<noteq> None then killSession r Detached s else s);
          d = next_driver s1;
          s2 = emit (PromiseChainRemote d (host args) (port args) (username args)
                       (accessKey args) (https args))
                 (s1\<lparr>sessionDrivers := (sessionDrivers s1)(r \<mapsto> d), next_driver := Suc d\<rparr>);
          s3 = await (Init d (desiredCapabilities args)) (CreateInit r) s2
      in send (Sender r) AppiumNewSessionSuccessful s3)"

definition connectClientMethodListener ::
  "requester \<Rightarrow> string \<Rightarrow> jsval list \<Rightarrow> state \<Rightarrow> state" where
  "connectClientMethodListener r methodName args s =
     (let drv = sessionDrivers s r in
      if methodName = ''quit'' then killSession r AwaitedByCommand s
      else if methodName \<noteq> ''source'' then
        (case drv of
           None \<Rightarrow> send (Sender r) (AppiumClientCommandResponseError (TypeError methodName)) s
         | Some d \<Rightarrow> await (Method d methodName args) (CmdMethod r d) s)
      else
        (case drv of
           None \<Rightarrow> send (Sender r) (AppiumClientCommandResponseError (TypeError ''source'')) s
         | Some d \<Rightarrow> await (Source d) (CmdSource r d) s))"

text \<open>The interval callback and the log sink installed into the server arguments.\<close>

definition flush :: "state \<Rightarrow> state" where
  "flush s =
     (if batchedLogs s \<noteq> []
      then (send Win (AppiumLogLine (batchedLogs s)) s)\<lparr>batchedLogs := []\<rparr>
      else s)"

definition logHandler :: "jsval \<Rightarrow> jsval \<Rightarrow> state \<Rightarrow> state" where
  "logHandler level msg s = s\<lparr>batchedLogs := batchedLogs s @ [(level, msg)]\<rparr>"

subsection \<open>The listeners, from an await to the next\<close>

fun resume :: "cont \<Rightarrow> outcome \<Rightarrow> state \<Rightarrow> state" where
  "resume (KillQuit sender caller) (Resolved v) s =
     send (Sender sender) AppiumSessionDone
       (s\<lparr>sessionDrivers := (sessionDrivers s)(sender := None)\<rparr>)"
| "resume (KillQuit sender Detached) (Rejected e) s = emit (UnhandledRejection e) s"
| "resume (KillQuit sender AwaitedByCommand) (Rejected e) s =
     send (Sender sender) (AppiumClientCommandResponseError e) s"
| "resume (CreateInit r) (Resolved v) s = send (Sender r) AppiumNewSessionReady s"
| "resume (CreateInit r) (Rejected e) s =
     send (Sender r) AppiumSessionDone
       (send (Sender r) AppiumNewSessionFailed (killSession r Detached s))"
| "resume (CmdMethod r d) (Resolved v) s = await (Source d) (CmdSource r d) s"
| "resume (CmdMethod r d) (Rejected e) s =
     send (Sender r) (AppiumClientCommandResponseError e) s"
| "resume (CmdSource r d) (Resolved v) s = await (TakeScreenshot d) (CmdScreenshot r d v) s"
| "resume (CmdSource r d) (Rejected e) s =
     send (Sender r) (AppiumClientCommandResponseError e) s"
| "resume (CmdScreenshot r d src) (Resolved v) s =
     send (Sender r) (AppiumClientCommandResponse src v) s"
| "resume (CmdScreenshot r d src) (Rejected e) s =
     send (Sender r) (AppiumClientCommandResponseError e) s"
| "resume StartServer (Resolved v) s = send Win AppiumStartOk (s\<lparr>server := v\<rparr>)"
| "resume StartServer (Rejected e) s =
     (let s1 = send Win (AppiumStartError (message e)) s in
      case server_close StartClose s1 of
        Inr s' \<Rightarrow> s'
      | Inl ign \<Rightarrow> clearInterval s1)"
| "resume StartClose oc s = clearInterval s"
| "resume StopClose (Resolved v) s = clearInterval (send Win AppiumStopOk s)"
| "resume StopClose (Rejected e) s = clearInterval (send Win (AppiumStopError (message e)) s)"

subsection \<open>Inputs and runs\<close>

datatype input =
    IpcStartServer addr
  | IpcStopServer
  | IpcCreateNewSession requester session_args
  | IpcClientCommand requester string "jsval list"
  | WindowClosed requester
  | Tick timer
  | Log jsval jsval
  | Settle promise outcome

fun step :: "state \<Rightarrow> input \<Rightarrow> state" where
  "step s (IpcStartServer args) = connectStartServer args s"
| "step s IpcStopServer = connectStopServer s"
| "step s (IpcCreateNewSession r args) = connectCreateNewSession r args s"
| "step s (IpcClientCommand r m args) = connectClientMethodListener r m args s"
| "step s (WindowClosed r) = killSession r Detached s"
| "step s (Tick t) = (if t \<in> timers s then flush s else s)"
| "step s (Log level msg) = logHandler level msg s"
| "step s (Settle p oc) =
     (case map_of (pending s) p of
        None \<Rightarrow> s
      | Some k \<Rightarrow> resume k oc (s\<lparr>pending := AList.delete p (pending s)\<rparr>))"

definition run :: "state \<Rightarrow> input list \<Rightarrow> state" where
  "run s ins = foldl step s ins"

text \<open>What a requester or the main window received, in order.\<close>

fun event_for :: "target \<Rightarrow> effect \<Rightarrow> event option" where
  "event_for t (Send t' ev) = (if t' = t then Some ev else None)"
| "event_for t e = None"

definition received :: "target \<Rightarrow> state \<Rightarrow> event list" where
  "received t s = List.map_filter (event_for t) (trace s)"

text \<open>The log batches the main window received, in order.\<close>

fun batch_of :: "event \<Rightarrow> log_record list option" where
  "batch_of (AppiumLogLine b) = Some b"
| "batch_of ev = None"

definition delivered :: "state \<Rightarrow> log_record list list" where
  "delivered s = List.map_filter batch_of (received Win s)"

subsection \<open>Well-formed states\<close>

text \<open>
  Promise identities and timer handles are handed out in increasing order, so the next
  one is not in use.  Every state reached from \<open>initial\<close> is well-formed.
\<close>

definition wf :: "state \<Rightarrow> bool" where
  "wf s \<longleftrightarrow> (\<forall>p \<in> set (map fst (pending s)). p < next_promise s)
           \<and> (\<forall>t \<in> timers s. t < next_timer s)"

subsection \<open>The log aggregator as the specification words it\<close>

text \<open>
  A history of the aggregator is a sequence of \<open>append\<close> calls and flush ticks.  The
  specification speaks of the records appended between two ticks: \<open>runs_between_ticks\<close>
  cuts the history at every tick, \<open>open_run\<close> is what was appended after the last tick,
  and \<open>spec_batches\<close> are the non-empty runs, the batches the specification expects to
  be delivered.
\<close>

datatype log_action = Append jsval jsval | FlushTick

fun log_input :: "timer \<Rightarrow> log_action \<Rightarrow> input" where
  "log_input t (Append level msg) = Log level msg"
| "log_input t FlushTick = Tick t"

fun appended :: "log_action list \<Rightarrow> log_record list" where
  "appended [] = []"
| "appended (Append level msg # as) = (level, msg) # appended as"
| "appended (FlushTick # as) = appended as"

fun runs_between_ticks :: "log_record list \<Rightarrow> log_action list \<Rightarrow> log_record list list" where
  "runs_between_ticks cur [] = []"
| "runs_between_ticks cur (Append level msg # as) = runs_between_ticks (cur @ [(level, msg)]) as"
| "runs_between_ticks cur (FlushTick # as) = cur # runs_between_ticks [] as"

fun open_run :: "log_record list \<Rightarrow> log_action list \<Rightarrow> log_record list" where
  "open_run cur [] = cur"
| "open_run cur (Append level msg # as) = open_run (cur @ [(level, msg)]) as"
| "open_run cur (FlushTick # as) = open_run [] as"

definition spec_batches :: "log_record list \<Rightarrow> log_action list \<Rightarrow> log_record list list" where
  "spec_batches buf acts = filter (\<lambda>b. b \<noteq> []) (runs_between_ticks buf acts)"

subsection \<open>At most one flush timer\<close>

text \<open>
  At most one interval timer is running, and it is the one whose handle \<^verbatim>\<open>logWatcher\<close>
  holds.
\<close>

definition single_timer :: "state \<Rightarrow> bool" where
  "single_timer s \<longleftrightarrow> timers s \<subseteq> set_option (logWatcher s)"

subsection \<open>A concrete payload\<close>

definition localhost_args :: session_args where
  "localhost_args = \<lparr>desiredCapabilities = JObj [(''platformName'', JStr ''iOS'')],
     host = JStr ''localhost'', port = JNum 4723, username = JUndefined,
     accessKey = JUndefined, https = JBool False\<rparr>"

section \<open>Properties\<close>

subsection \<open>Unfolding and the invariant\<close>

lemmas prim_defs = emit_def send_def await_def setInterval_def clearInterval_def

lemmas listener_defs = killSession_def server_close_def connectStartServer_def
  connectStopServer_def connectCreateNewSession_def connectClientMethodListener_def
  flush_def logHandler_def

lemmas eval_defs = run_def initial_def listener_defs prim_defs Let_def received_def
  map_filter_def localhost_args_def

lemma wf_initial: "wf (initial h)"
  by (simp add: wf_def initial_def)

lemma wf_emit: "wf (emit e s) = wf s"
  by (simp add: wf_def emit_def)

lemma wf_send: "wf (send t e s) = wf s"
  by (simp add: send_def wf_emit)

lemma wf_await: "wf s \<Longrightarrow> wf (await c k s)"
  by (auto simp: wf_def await_def less_Suc_eq)

lemma wf_clearInterval: "wf s \<Longrightarrow> wf (clearInterval s)"
  by (auto simp: wf_def clearInterval_def)

lemma wf_setInterval: "wf s \<Longrightarrow> wf (setInterval s)"
  by (auto simp: wf_def setInterval_def less_Suc_eq)

lemma wf_killSession: "wf s \<Longrightarrow> wf (killSession r c s)"
  by (simp add: killSession_def wf_await split: option.splits)

lemma wf_server_close: "wf s \<Longrightarrow> server_close k s = Inr s' \<Longrightarrow> wf s'"
  by (auto simp: server_close_def wf_await split: jsval.splits)

lemma wf_upd:
  "wf (s\<lparr>sessionDrivers := m\<rparr>) = wf s"
  "wf (s\<lparr>server := v\<rparr>) = wf s"
  "wf (s\<lparr>serverArgs := a\<rparr>) = wf s"
  "wf (s\<lparr>heap := h\<rparr>) = wf s"
  "wf (s\<lparr>batchedLogs := b\<rparr>) = wf s"
  "wf (s\<lparr>next_driver := n\<rparr>) = wf s"
  by (simp_all add: wf_def)

lemma wf_resume: "wf s \<Longrightarrow> wf (resume k oc s)"
  by (induction k oc s rule: resume.induct)
     (auto simp: wf_send wf_emit wf_await wf_killSession wf_clearInterval wf_upd Let_def
           intro: wf_server_close [rotated] split: sum.splits)

lemma wf_drop: "wf s \<Longrightarrow> wf (s\<lparr>pending := AList.delete p (pending s)\<rparr>)"
  by (auto simp: wf_def delete_keys)

lemma wf_step: "wf s \<Longrightarrow> wf (step s i)"
proof (cases i)
  case (IpcStartServer a)
  then show "wf s \<Longrightarrow> ?thesis"
    by (auto simp: connectStartServer_def wf_emit wf_await wf_setInterval wf_upd Let_def
             split: option.splits)
next
  case IpcStopServer
  then show "wf s \<Longrightarrow> ?thesis"
    by (auto simp: connectStopServer_def wf_send wf_clearInterval
             intro: wf_server_close [rotated] split: sum.splits)
next
  case (IpcCreateNewSession r args)
  then show "wf s \<Longrightarrow> ?thesis"
    by (auto simp: connectCreateNewSession_def wf_send wf_emit wf_await wf_killSession wf_upd Let_def)
next
  case (IpcClientCommand r m args)
  then show "wf s \<Longrightarrow> ?thesis"
    by (auto simp: connectClientMethodListener_def wf_send wf_await wf_killSession Let_def
             split: option.splits)
next
  case (Settle p oc)
  then show "wf s \<Longrightarrow> ?thesis"
    by (auto simp: wf_resume wf_drop split: option.splits)
qed (auto simp: wf_killSession flush_def logHandler_def wf_send wf_upd)

lemma wf_run: "wf s \<Longrightarrow> wf (run s ins)"
  unfolding run_def by (induction ins arbitrary: s) (simp_all add: wf_step)

lemma wf_reachable: "wf (run (initial h) ins)"
  by (rule wf_run [OF wf_initial])

subsection \<open>Suspended listeners stay suspended until their promise settles\<close>

lemma pending_resume: "\<exists>ys. pending (resume k oc s) = pending s @ ys"
  by (induction k oc s rule: resume.induct)
     (auto simp: prim_defs listener_defs Let_def split: option.splits jsval.splits)

lemma pending_step:
  assumes "map_of (pending s) p = Some k" and "\<forall>oc. i \<noteq> Settle p oc"
  shows "map_of (pending (step s i)) p = Some k"
proof (cases i)
  case (Settle q oc)
  with assms(2) have neq: "q \<noteq> p" by auto
  show ?thesis
  proof (cases "map_of (pending s) q")
    case None
    with Settle assms(1) show ?thesis by simp
  next
    case (Some k')
    obtain ys where "pending (resume k' oc (s\<lparr>pending := AList.delete q (pending s)\<rparr>))
        = AList.delete q (pending s) @ ys"
      using pending_resume [of k' oc "s\<lparr>pending := AList.delete q (pending s)\<rparr>"] by auto
    with Settle Some assms(1) neq show ?thesis
      by (simp add: delete_conv' map_add_Some_iff)
  qed
qed (use assms(1) in \<open>auto simp: prim_defs listener_defs Let_def map_add_Some_iff
       split: option.splits jsval.splits\<close>)

lemma pending_run:
  assumes "map_of (pending s) p = Some k" and "\<forall>i \<in> set ins. \<forall>oc. i \<noteq> Settle p oc"
  shows "map_of (pending (run s ins)) p = Some k"
  using assms unfolding run_def
  by (induction ins arbitrary: s) (simp_all add: pending_step)

lemma pending_await:
  "wf s \<Longrightarrow> map_of (pending (await c k s)) (next_promise s) = Some k"
  by (auto simp: wf_def await_def map_add_Some_iff map_of_eq_None_iff)

lemma step_Settle:
  "map_of (pending s) p = Some k \<Longrightarrow>
   step s (Settle p oc) = resume k oc (s\<lparr>pending := AList.delete p (pending s)\<rparr>)"
  by simp

subsection \<open>Log batching\<close>

lemma map_filter_append:
  "List.map_filter f (xs @ ys) = List.map_filter f xs @ List.map_filter f ys"
  by (simp add: map_filter_def)

lemma received_emit:
  "received t (emit e s) = received t s @ (case event_for t e of None \<Rightarrow> [] | Some ev \<Rightarrow> [ev])"
  by (simp add: received_def emit_def map_filter_append map_filter_simps split: option.splits)

lemma delivered_flush:
  "delivered (flush s) = delivered s @ (if batchedLogs s = [] then [] else [batchedLogs s])"
proof (cases "batchedLogs s = []")
  case True
  then show ?thesis by (simp add: flush_def)
next
  case False
  have "received Win (flush s) = received Win s @ [AppiumLogLine (batchedLogs s)]"
    using False received_emit [of Win "Send Win (AppiumLogLine (batchedLogs s))" s]
    by (simp add: flush_def send_def received_def emit_def)
  with False show ?thesis
    by (simp add: delivered_def map_filter_append map_filter_simps)
qed

lemma delivered_logHandler: "delivered (logHandler l m s) = delivered s"
  by (simp add: delivered_def logHandler_def received_def)

lemma batches_refine:
  "t \<in> timers s \<Longrightarrow>
   delivered (run s (map (log_input t) acts)) = delivered s @ spec_batches (batchedLogs s) acts
   \<and> batchedLogs (run s (map (log_input t) acts)) = open_run (batchedLogs s) acts
   \<and> timers (run s (map (log_input t) acts)) = timers s"
proof (induction acts arbitrary: s)
  case Nil
  then show ?case by (simp add: run_def spec_batches_def)
next
  case (Cons a acts)
  show ?case
  proof (cases a)
    case (Append l m)
    have t: "t \<in> timers (logHandler l m s)" using Cons.prems by (simp add: logHandler_def)
    show ?thesis
      using Cons.IH [OF t] Append
      by (simp add: run_def delivered_logHandler spec_batches_def) (simp add: logHandler_def)
  next
    case FlushTick
    have t: "t \<in> timers (flush s)" using Cons.prems by (simp add: flush_def send_def emit_def)
    show ?thesis
      using Cons.IH [OF t] FlushTick Cons.prems
      by (simp add: run_def delivered_flush spec_batches_def)
         (simp add: flush_def send_def emit_def)
  qed
qed

lemma batches_conserve:
  "concat (runs_between_ticks buf acts) @ open_run buf acts = buf @ appended acts"
  by (induction buf acts rule: runs_between_ticks.induct) simp_all

lemma concat_nonempty: "concat (filter (\<lambda>b. b \<noteq> []) xss) = concat xss"
  by (induction xss) simp_all

text \<open>
  C4.  Along every history of \<open>append\<close> calls and ticks of a running flush timer, the
  batches delivered to the main window are exactly the non-empty runs of records between
  consecutive ticks, in emission order; no delivered batch is empty; the batches together
  with the buffer left at the end are all appended records, none lost or reordered; a tick
  on a non-empty buffer sends the whole buffer as one event and clears it; a tick on an
  empty buffer changes nothing.
\<close>

theorem log_batches_exact:
  assumes "t \<in> timers s"
  shows "delivered (run s (map (log_input t) acts)) = delivered s @ spec_batches (batchedLogs s) acts
    \<and> [] \<notin> set (spec_batches (batchedLogs s) acts)
    \<and> concat (spec_batches (batchedLogs s) acts) @ batchedLogs (run s (map (log_input t) acts))
        = batchedLogs s @ appended acts
    \<and> (batchedLogs s \<noteq> [] \<longrightarrow>
         step s (Tick t) = s\<lparr>trace := trace s @ [Send Win (AppiumLogLine (batchedLogs s))],
                              batchedLogs := []\<rparr>)
    \<and> (batchedLogs s = [] \<longrightarrow> step s (Tick t) = s)"
proof -
  note r = batches_refine [OF assms, of acts]
  have "concat (spec_batches (batchedLogs s) acts) @ batchedLogs (run s (map (log_input t) acts))
        = batchedLogs s @ appended acts"
    using r batches_conserve [of "batchedLogs s" acts]
    by (simp add: spec_batches_def concat_nonempty)
  moreover have "[] \<notin> set (spec_batches (batchedLogs s) acts)"
    by (simp add: spec_batches_def)
  ultimately show ?thesis
    using r assms by (simp add: flush_def send_def emit_def)
qed

theorem log_batches_exact_witness:
  "delivered (run (setInterval (initial Map.empty))
      (map (log_input 0) [Append (JStr ''info'') (JStr ''a''), Append (JStr ''info'') (JStr ''b''),
         FlushTick, FlushTick, Append (JStr ''warn'') (JStr ''c''), FlushTick]))
   = [[(JStr ''info'', JStr ''a''), (JStr ''info'', JStr ''b'')], [(JStr ''warn'', JStr ''c'')]]"
proof -
  have t: "(0::nat) \<in> timers (setInterval (initial Map.empty))"
    by (simp add: setInterval_def initial_def)
  show ?thesis
    using log_batches_exact [OF t, of "[Append (JStr ''info'') (JStr ''a''), Append (JStr ''info'') (JStr ''b''),
         FlushTick, FlushTick, Append (JStr ''warn'') (JStr ''c''), FlushTick]"]
    by (simp add: spec_batches_def setInterval_def initial_def delivered_def received_def map_filter_def)
qed

subsection \<open>Sessions\<close>

text \<open>
  C1.  The claim: when a session is created for a requester that already has one, the old
  entry is destroyed (adapter quit, mapping removed, \<^verbatim>\<open>appium-session-done\<close> sent) before
  the new adapter is registered.  The listener calls \<^verbatim>\<open>killSession\<close> without awaiting it.
  Evaluated on a requester whose first session is ready and who asks for a second one:
  after the second request the new driver 1 is registered while the quit of the old driver
  is still pending, its mapping was never removed and no \<^verbatim>\<open>appium-session-done\<close> was
  sent; when that quit settles, the suspended \<^verbatim>\<open>killSession\<close> removes the mapping of
  the new driver, and the requester is told that the session is done and then that the new
  session is ready, with no entry left in the registry.
\<close>

theorem create_over_existing_session_trace:
  "sessionDrivers (run (initial Map.empty)
      [IpcCreateNewSession 1 localhost_args, Settle 0 (Resolved JUndefined),
       IpcCreateNewSession 1 localhost_args]) 1 = Some 1
   \<and> pending (run (initial Map.empty)
      [IpcCreateNewSession 1 localhost_args, Settle 0 (Resolved JUndefined),
       IpcCreateNewSession 1 localhost_args]) = [(1, KillQuit 1 Detached), (2, CreateInit 1)]
   \<and> received (Sender 1) (run (initial Map.empty)
      [IpcCreateNewSession 1 localhost_args, Settle 0 (Resolved JUndefined),
       IpcCreateNewSession 1 localhost_args])
       = [AppiumNewSessionSuccessful, AppiumNewSessionReady, AppiumNewSessionSuccessful]
   \<and> sessionDrivers (run (initial Map.empty)
      [IpcCreateNewSession 1 localhost_args, Settle 0 (Resolved JUndefined),
       IpcCreateNewSession 1 localhost_args,
       Settle 1 (Resolved JUndefined), Settle 2 (Resolved JUndefined)]) 1 = None
   \<and> received (Sender 1) (run (initial Map.empty)
      [IpcCreateNewSession 1 localhost_args, Settle 0 (Resolved JUndefined),
       IpcCreateNewSession 1 localhost_args,
       Settle 1 (Resolved JUndefined), Settle 2 (Resolved JUndefined)])
       = [AppiumNewSessionSuccessful, AppiumNewSessionReady, AppiumNewSessionSuccessful,
          AppiumSessionDone, AppiumNewSessionReady]"
  by (simp add: eval_defs)

text \<open>
  C2, as stated, fails: a requester whose first session fails to initialize, and whose
  adapter then quits successfully, receives \<^verbatim>\<open>appium-new-session-successful\<close>,
  \<^verbatim>\<open>appium-new-session-failed\<close> and \<^verbatim>\<open>appium-session-done\<close> twice, not exactly the
  two events of the claim.
\<close>

theorem init_failure_events_counterexample:
  "received (Sender 1)
     (run (initial Map.empty)
        [IpcCreateNewSession 1 localhost_args, Settle 0 (Rejected (Failure ''refused'')),
         Settle 1 (Resolved JUndefined)])
   = [AppiumNewSessionSuccessful, AppiumNewSessionFailed, AppiumSessionDone, AppiumSessionDone]"
  by (simp add: eval_defs)

text \<open>
  C2, amended.  When the initialization awaited by a create-session listener for \<open>r\<close>
  fails while \<open>r\<close> has an entry, the listener calls quit on that adapter and, in the same
  turn, sends \<^verbatim>\<open>appium-new-session-failed\<close> followed by \<^verbatim>\<open>appium-session-done\<close> to
  \<open>r\<close>, the registry still unchanged; whatever else happens in between, when that quit
  resolves the mapping of \<open>r\<close> is removed and \<^verbatim>\<open>appium-session-done\<close> is sent once
  more.  When \<open>r\<close> has no entry at the failure, only the two events are sent.
\<close>

theorem init_failure_events:
  assumes "wf s" and "map_of (pending s) p = Some (CreateInit r)"
    and "\<forall>i \<in> set ins. \<forall>oc. i \<noteq> Settle (next_promise s) oc"
  shows "(\<forall>d. sessionDrivers s r = Some d \<longrightarrow>
           (let s1 = step s (Settle p (Rejected e)); s2 = run s1 ins;
                s3 = step s2 (Settle (next_promise s) (Resolved v))
            in trace s1 = trace s @ [Invoke (next_promise s) (Quit d),
                                     Send (Sender r) AppiumNewSessionFailed,
                                     Send (Sender r) AppiumSessionDone]
             \<and> sessionDrivers s1 = sessionDrivers s
             \<and> trace s3 = trace s2 @ [Send (Sender r) AppiumSessionDone]
             \<and> sessionDrivers s3 = (sessionDrivers s2)(r := None)))
       \<and> (sessionDrivers s r = None \<longrightarrow>
            trace (step s (Settle p (Rejected e)))
              = trace s @ [Send (Sender r) AppiumNewSessionFailed,
                           Send (Sender r) AppiumSessionDone]
          \<and> sessionDrivers (step s (Settle p (Rejected e))) = sessionDrivers s)"
proof (intro conjI allI impI)
  fix d assume d: "sessionDrivers s r = Some d"
  define s0 where "s0 = s\<lparr>pending := AList.delete p (pending s)\<rparr>"
  define s1 where "s1 = step s (Settle p (Rejected e))"
  define s2 where "s2 = run s1 ins"
  have wf0: "wf s0" unfolding s0_def by (rule wf_drop [OF assms(1)])
  have np: "next_promise s0 = next_promise s" by (simp add: s0_def)
  have s1: "s1 = send (Sender r) AppiumSessionDone
                   (send (Sender r) AppiumNewSessionFailed
                      (await (Quit d) (KillQuit r Detached) s0))"
    using assms(2) d by (simp add: s1_def s0_def killSession_def)
  have "map_of (pending (await (Quit d) (KillQuit r Detached) s0)) (next_promise s)
      = Some (KillQuit r Detached)"
    using pending_await [OF wf0] by (simp add: np)
  then have "map_of (pending s1) (next_promise s) = Some (KillQuit r Detached)"
    by (simp add: s1 send_def emit_def)
  then have p2: "map_of (pending s2) (next_promise s) = Some (KillQuit r Detached)"
    unfolding s2_def using assms(3) by (rule pending_run)
  have a: "trace s1 = trace s @ [Invoke (next_promise s) (Quit d),
                                     Send (Sender r) AppiumNewSessionFailed,
                                     Send (Sender r) AppiumSessionDone]"
    and b: "sessionDrivers s1 = sessionDrivers s"
    by (simp_all add: s1 prim_defs s0_def)
  have c: "trace (step s2 (Settle (next_promise s) (Resolved v)))
             = trace s2 @ [Send (Sender r) AppiumSessionDone]"
    and c': "sessionDrivers (step s2 (Settle (next_promise s) (Resolved v)))
             = (sessionDrivers s2)(r := None)"
    using p2 by (simp_all add: prim_defs)
  show "let s1 = step s (Settle p (Rejected e)); s2 = run s1 ins;
                s3 = step s2 (Settle (next_promise s) (Resolved v))
            in trace s1 = trace s @ [Invoke (next_promise s) (Quit d),
                                     Send (Sender r) AppiumNewSessionFailed,
                                     Send (Sender r) AppiumSessionDone]
             \<and> sessionDrivers s1 = sessionDrivers s
             \<and> trace s3 = trace s2 @ [Send (Sender r) AppiumSessionDone]
             \<and> sessionDrivers s3 = (sessionDrivers s2)(r := None)"
    unfolding Let_def s1_def [symmetric] s2_def [symmetric]
    using a b c c' by blast
next
  assume n: "sessionDrivers s r = None"
  show "trace (step s (Settle p (Rejected e)))
              = trace s @ [Send (Sender r) AppiumNewSessionFailed,
                           Send (Sender r) AppiumSessionDone]"
    using assms(2) n by (simp add: killSession_def prim_defs)
  show "sessionDrivers (step s (Settle p (Rejected e))) = sessionDrivers s"
    using assms(2) n by (simp add: killSession_def prim_defs)
qed

theorem init_failure_events_witness:
  "trace (run (initial Map.empty)
        [IpcCreateNewSession 1 localhost_args, Log (JStr ''info'') (JStr ''x''),
         Settle 0 (Rejected (Failure ''refused'')), Tick 0, Settle 1 (Resolved JUndefined)])
   = [PromiseChainRemote 0 (JStr ''localhost'') (JNum 4723) JUndefined JUndefined (JBool False),
      Invoke 0 (Init 0 (JObj [(''platformName'', JStr ''iOS'')])),
      Send (Sender 1) AppiumNewSessionSuccessful,
      Invoke 1 (Quit 0),
      Send (Sender 1) AppiumNewSessionFailed,
      Send (Sender 1) AppiumSessionDone,
      Send (Sender 1) AppiumSessionDone]
   \<and> sessionDrivers (run (initial Map.empty)
        [IpcCreateNewSession 1 localhost_args, Log (JStr ''info'') (JStr ''x''),
         Settle 0 (Rejected (Failure ''refused'')), Tick 0, Settle 1 (Resolved JUndefined)]) 1
     = None"
proof -
  let ?s = "run (initial Map.empty)
              [IpcCreateNewSession 1 localhost_args, Log (JStr ''info'') (JStr ''x'')]"
  have w: "wf ?s" by (rule wf_reachable)
  have p: "map_of (pending ?s) 0 = Some (CreateInit 1)" by (simp add: eval_defs)
  have i: "\<forall>i \<in> set [Tick 0]. \<forall>oc. i \<noteq> Settle (next_promise ?s) oc" by simp
  have d: "sessionDrivers ?s 1 = Some 0" by (simp add: eval_defs)
  from init_failure_events [OF w p i, where e = "Failure ''refused''" and v = JUndefined] d
  show ?thesis by (simp add: eval_defs)
qed

text \<open>
  C3, as stated, fails: there is no check for a missing session.  A command for a
  requester without an entry reads the method off \<^verbatim>\<open>undefined\<close>, and what the requester
  receives is the \<^verbatim>\<open>TypeError\<close> of the runtime, not a dedicated no-active-session error.
\<close>

theorem command_without_session_counterexample:
  "received (Sender 1) (run (initial Map.empty) [IpcClientCommand 1 ''click'' []])
     = [AppiumClientCommandResponseError (TypeError ''click'')]
   \<and> error_name (TypeError ''click'') \<noteq> ''NoActiveSessionError''"
  by (simp add: eval_defs)

text \<open>
  C3, amended.  For a requester without an entry and a method other than \<^verbatim>\<open>quit\<close>, the
  command listener does exactly one thing: it sends one
  \<^verbatim>\<open>appium-client-command-response-error\<close> carrying the \<^verbatim>\<open>TypeError\<close> raised by
  reading the method off the missing driver.  No call is made on any adapter, nothing is
  left unhandled, and the registry and every other part of the state are unchanged.
\<close>

theorem command_without_session:
  assumes "sessionDrivers s r = None" and "m \<noteq> ''quit''"
  shows "step s (IpcClientCommand r m args)
     = s\<lparr>trace := trace s @ [Send (Sender r) (AppiumClientCommandResponseError (TypeError m))]\<rparr>"
  using assms by (simp add: connectClientMethodListener_def prim_defs)

theorem command_without_session_witness:
  "step (initial Map.empty) (IpcClientCommand 3 ''source'' [])
     = (initial Map.empty)\<lparr>trace :=
          [Send (Sender 3) (AppiumClientCommandResponseError (TypeError ''source''))]\<rparr>"
proof -
  have 1: "sessionDrivers (initial Map.empty) 3 = None" by (simp add: initial_def)
  have 2: "''source'' \<noteq> ''quit''" by simp
  show ?thesis
    using command_without_session [OF 1 2, of "[]"] by (simp add: initial_def)
qed

text \<open>
  C7.  For a requester with an active entry, the \<^verbatim>\<open>source\<close> command makes no method
  call of that name on the adapter: the only call of the first turn is the refresh's
  \<^verbatim>\<open>driver.source()\<close>.  Whatever else runs while the listener is suspended, when the
  page source arrives the screenshot is requested from the same driver, and when the
  screenshot arrives one \<^verbatim>\<open>appium-client-command-response\<close> carrying both is sent to
  the requester.  If either call of the refresh fails, the one event sent instead is the
  error response.
\<close>

theorem source_command_refresh_only:
  assumes "wf s" and "sessionDrivers s r = Some d"
    and "\<forall>i \<in> set ins1. \<forall>oc. i \<noteq> Settle (next_promise s) oc"
    and "\<forall>i \<in> set ins2. \<forall>oc. i \<noteq>
           Settle (next_promise (run (step s (IpcClientCommand r ''source'' args)) ins1)) oc"
  shows "let s1 = step s (IpcClientCommand r ''source'' args); s2 = run s1 ins1;
             s3 = step s2 (Settle (next_promise s) (Resolved src)); s4 = run s3 ins2;
             s5 = step s4 (Settle (next_promise s2) (Resolved shot))
         in trace s1 = trace s @ [Invoke (next_promise s) (Source d)]
          \<and> trace s3 = trace s2 @ [Invoke (next_promise s2) (TakeScreenshot d)]
          \<and> trace s5 = trace s4 @ [Send (Sender r) (AppiumClientCommandResponse src shot)]
          \<and> (\<forall>e. trace (step s2 (Settle (next_promise s) (Rejected e)))
                 = trace s2 @ [Send (Sender r) (AppiumClientCommandResponseError e)])
          \<and> (\<forall>e. trace (step s4 (Settle (next_promise s2) (Rejected e)))
                 = trace s4 @ [Send (Sender r) (AppiumClientCommandResponseError e)])"
proof -
  define s1 where "s1 = step s (IpcClientCommand r ''source'' args)"
  define s2 where "s2 = run s1 ins1"
  define s3 where "s3 = step s2 (Settle (next_promise s) (Resolved src))"
  define s4 where "s4 = run s3 ins2"
  have s1: "s1 = await (Source d) (CmdSource r d) s"
    using assms(2) by (simp add: s1_def connectClientMethodListener_def)
  have t1: "trace s1 = trace s @ [Invoke (next_promise s) (Source d)]"
    by (simp add: s1 await_def)
  have "map_of (pending s1) (next_promise s) = Some (CmdSource r d)"
    unfolding s1 by (rule pending_await [OF assms(1)])
  then have p2: "map_of (pending s2) (next_promise s) = Some (CmdSource r d)"
    unfolding s2_def using assms(3) by (rule pending_run)
  have "wf s1" unfolding s1_def by (rule wf_step [OF assms(1)])
  then have "wf s2" unfolding s2_def by (rule wf_run)
  then have wf2: "wf (s2\<lparr>pending := AList.delete (next_promise s) (pending s2)\<rparr>)"
    by (rule wf_drop)
  have s3: "s3 = await (TakeScreenshot d) (CmdScreenshot r d src)
                   (s2\<lparr>pending := AList.delete (next_promise s) (pending s2)\<rparr>)"
    unfolding s3_def using p2 by simp
  have t3: "trace s3 = trace s2 @ [Invoke (next_promise s2) (TakeScreenshot d)]"
    by (simp add: s3 await_def)
  have "map_of (pending s3) (next_promise s2) = Some (CmdScreenshot r d src)"
    unfolding s3 using pending_await [OF wf2] by simp
  moreover have "\<forall>i \<in> set ins2. \<forall>oc. i \<noteq> Settle (next_promise s2) oc"
    using assms(4) by (simp add: s2_def s1_def)
  ultimately have p4: "map_of (pending s4) (next_promise s2) = Some (CmdScreenshot r d src)"
    unfolding s4_def by (rule pending_run)
  have t5: "trace (step s4 (Settle (next_promise s2) (Resolved shot)))
      = trace s4 @ [Send (Sender r) (AppiumClientCommandResponse src shot)]"
    using p4 by (simp add: prim_defs)
  have e3: "\<forall>e. trace (step s2 (Settle (next_promise s) (Rejected e)))
                 = trace s2 @ [Send (Sender r) (AppiumClientCommandResponseError e)]"
    using p2 by (simp add: prim_defs)
  have e5: "\<forall>e. trace (step s4 (Settle (next_promise s2) (Rejected e)))
                 = trace s4 @ [Send (Sender r) (AppiumClientCommandResponseError e)]"
    using p4 by (simp add: prim_defs)
  show ?thesis
    unfolding Let_def s1_def [symmetric] s2_def [symmetric] s3_def [symmetric] s4_def [symmetric]
    using t1 t3 t5 e3 e5 by blast
qed

theorem source_command_refresh_only_witness:
  "trace (run (initial Map.empty)
      [IpcCreateNewSession 1 localhost_args, Settle 0 (Resolved JUndefined),
       IpcClientCommand 1 ''source'' [], Log (JStr ''debug'') (JStr ''GET /source''),
       Settle 1 (Resolved (JStr ''<AppiumAUT/>'')), Settle 2 (Resolved (JStr ''iVBORw0KGgo='')) ])
   = [PromiseChainRemote 0 (JStr ''localhost'') (JNum 4723) JUndefined JUndefined (JBool False),
      Invoke 0 (Init 0 (JObj [(''platformName'', JStr ''iOS'')])),
      Send (Sender 1) AppiumNewSessionSuccessful,
      Send (Sender 1) AppiumNewSessionReady,
      Invoke 1 (Source 0),
      Invoke 2 (TakeScreenshot 0),
      Send (Sender 1) (AppiumClientCommandResponse (JStr ''<AppiumAUT/>'') (JStr ''iVBORw0KGgo=''))]"
proof -
  let ?s = "run (initial Map.empty)
              [IpcCreateNewSession 1 localhost_args, Settle 0 (Resolved JUndefined)]"
  have w: "wf ?s" by (rule wf_reachable)
  have d: "sessionDrivers ?s 1 = Some 0" by (simp add: eval_defs)
  have i1: "\<forall>i \<in> set [Log (JStr ''debug'') (JStr ''GET /source'')].
              \<forall>oc. i \<noteq> Settle (next_promise ?s) oc" by simp
  have i2: "\<forall>i \<in> set []. \<forall>oc. i \<noteq> Settle (next_promise (run (step ?s
              (IpcClientCommand 1 ''source'' [])) [Log (JStr ''debug'') (JStr ''GET /source'')])) oc"
    by simp
  from source_command_refresh_only [OF w d i1 i2,
      where src = "JStr ''<AppiumAUT/>''" and shot = "JStr ''iVBORw0KGgo=''"]
  show ?thesis by (simp add: eval_defs)
qed

text \<open>
  C9, as stated, fails: the entry exists, the adapter's quit fails, and the command ends
  with an error response; no \<^verbatim>\<open>appium-session-done\<close> is sent and the entry stays.
\<close>

theorem quit_command_counterexample:
  "pending (run (initial Map.empty)
      [IpcCreateNewSession 1 localhost_args, Settle 0 (Resolved JUndefined),
       IpcClientCommand 1 ''quit'' [], Settle 1 (Rejected (Failure ''socket hang up''))]) = []
   \<and> sessionDrivers (run (initial Map.empty)
      [IpcCreateNewSession 1 localhost_args, Settle 0 (Resolved JUndefined),
       IpcClientCommand 1 ''quit'' [], Settle 1 (Rejected (Failure ''socket hang up''))]) 1
      = Some 0
   \<and> received (Sender 1) (run (initial Map.empty)
      [IpcCreateNewSession 1 localhost_args, Settle 0 (Resolved JUndefined),
       IpcClientCommand 1 ''quit'' [], Settle 1 (Rejected (Failure ''socket hang up''))])
      = [AppiumNewSessionSuccessful, AppiumNewSessionReady,
         AppiumClientCommandResponseError (Failure ''socket hang up'')]"
  by (simp add: eval_defs)

text \<open>
  C9, amended.  The \<^verbatim>\<open>quit\<close> command of a requester with an entry calls the adapter's
  quit and leaves the registry as it is until that call settles.  When the quit resolves,
  the mapping of the requester is removed and one \<^verbatim>\<open>appium-session-done\<close> is sent; when
  it rejects, one error response is sent and the registry is unchanged.  For a requester
  without an entry the command does nothing at all.
\<close>

theorem quit_command:
  assumes "wf s" and "\<forall>i \<in> set ins. \<forall>oc. i \<noteq> Settle (next_promise s) oc"
  shows "(\<forall>d. sessionDrivers s r = Some d \<longrightarrow>
           (let s1 = step s (IpcClientCommand r ''quit'' args); s2 = run s1 ins
            in trace s1 = trace s @ [Invoke (next_promise s) (Quit d)]
             \<and> sessionDrivers s1 = sessionDrivers s
             \<and> (\<forall>v. trace (step s2 (Settle (next_promise s) (Resolved v)))
                      = trace s2 @ [Send (Sender r) AppiumSessionDone]
                   \<and> sessionDrivers (step s2 (Settle (next_promise s) (Resolved v)))
                      = (sessionDrivers s2)(r := None))
             \<and> (\<forall>e. trace (step s2 (Settle (next_promise s) (Rejected e)))
                      = trace s2 @ [Send (Sender r) (AppiumClientCommandResponseError e)]
                   \<and> sessionDrivers (step s2 (Settle (next_promise s) (Rejected e)))
                      = sessionDrivers s2)))
       \<and> (sessionDrivers s r = None \<longrightarrow> step s (IpcClientCommand r ''quit'' args) = s)"
proof (intro conjI allI impI)
  fix d assume d: "sessionDrivers s r = Some d"
  define s1 where "s1 = step s (IpcClientCommand r ''quit'' args)"
  define s2 where "s2 = run s1 ins"
  have s1: "s1 = await (Quit d) (KillQuit r AwaitedByCommand) s"
    using d by (simp add: s1_def connectClientMethodListener_def killSession_def)
  have "map_of (pending s1) (next_promise s) = Some (KillQuit r AwaitedByCommand)"
    unfolding s1 by (rule pending_await [OF assms(1)])
  then have p2: "map_of (pending s2) (next_promise s) = Some (KillQuit r AwaitedByCommand)"
    unfolding s2_def using assms(2) by (rule pending_run)
  have a: "trace s1 = trace s @ [Invoke (next_promise s) (Quit d)]"
    and b: "sessionDrivers s1 = sessionDrivers s"
    by (simp_all add: s1 await_def)
  have c: "\<forall>v. trace (step s2 (Settle (next_promise s) (Resolved v)))
                      = trace s2 @ [Send (Sender r) AppiumSessionDone]
               \<and> sessionDrivers (step s2 (Settle (next_promise s) (Resolved v)))
                      = (sessionDrivers s2)(r := None)"
    using p2 by (simp add: prim_defs)
  have e: "\<forall>e. trace (step s2 (Settle (next_promise s) (Rejected e)))
                      = trace s2 @ [Send (Sender r) (AppiumClientCommandResponseError e)]
               \<and> sessionDrivers (step s2 (Settle (next_promise s) (Rejected e)))
                      = sessionDrivers s2"
    using p2 by (simp add: prim_defs)
  show "let s1 = step s (IpcClientCommand r ''quit'' args); s2 = run s1 ins
            in trace s1 = trace s @ [Invoke (next_promise s) (Quit d)]
             \<and> sessionDrivers s1 = sessionDrivers s
             \<and> (\<forall>v. trace (step s2 (Settle (next_promise s) (Resolved v)))
                      = trace s2 @ [Send (Sender r) AppiumSessionDone]
                   \<and> sessionDrivers (step s2 (Settle (next_promise s) (Resolved v)))
                      = (sessionDrivers s2)(r := None))
             \<and> (\<forall>e. trace (step s2 (Settle (next_promise s) (Rejected e)))
                      = trace s2 @ [Send (Sender r) (AppiumClientCommandResponseError e)]
                   \<and> sessionDrivers (step s2 (Settle (next_promise s) (Rejected e)))
                      = sessionDrivers s2)"
    unfolding Let_def s1_def [symmetric] s2_def [symmetric]
    using a b c e by blast
next
  assume "sessionDrivers s r = None"
  then show "step s (IpcClientCommand r ''quit'' args) = s"
    by (simp add: connectClientMethodListener_def killSession_def)
qed

theorem quit_command_witness:
  "received (Sender 1) (run (initial Map.empty)
      [IpcCreateNewSession 1 localhost_args, Settle 0 (Resolved JUndefined),
       IpcClientCommand 1 ''quit'' [], Tick 0, Settle 1 (Resolved JUndefined)])
     = [AppiumNewSessionSuccessful, AppiumNewSessionReady, AppiumSessionDone]
   \<and> sessionDrivers (run (initial Map.empty)
      [IpcCreateNewSession 1 localhost_args, Settle 0 (Resolved JUndefined),
       IpcClientCommand 1 ''quit'' [], Tick 0, Settle 1 (Resolved JUndefined)]) 1 = None
   \<and> step (initial Map.empty) (IpcClientCommand 1 ''quit'' []) = initial Map.empty"
proof -
  let ?s = "run (initial Map.empty)
              [IpcCreateNewSession 1 localhost_args, Settle 0 (Resolved JUndefined)]"
  have w: "wf ?s" by (rule wf_reachable)
  have d: "sessionDrivers ?s 1 = Some 0" by (simp add: eval_defs)
  have i: "\<forall>i \<in> set [Tick 0]. \<forall>oc. i \<noteq> Settle (next_promise ?s) oc" by simp
  have n: "sessionDrivers (initial Map.empty) 1 = None" by (simp add: initial_def)
  have i0: "\<forall>i \<in> set []. \<forall>oc. i \<noteq> Settle (next_promise (initial Map.empty)) oc" by simp
  from quit_command [OF w i, where r = 1 and args = "[]"] d
    quit_command [OF wf_initial i0, where r = 1 and args = "[]"] n
  show ?thesis by (simp add: eval_defs)
qed

subsection \<open>The embedded server and the flush timer\<close>

lemma single_timer_resume: "single_timer s \<Longrightarrow> single_timer (resume k oc s)"
  by (induction k oc s rule: resume.induct)
     (auto simp: single_timer_def prim_defs listener_defs Let_def
           split: option.splits jsval.splits)

lemma timers_resume:
  assumes "t \<in> timers s" and "t \<notin> timers (resume k oc s)"
  shows "logWatcher s = Some t
       \<and> (k = StopClose \<or> k = StartClose
          \<or> (k = StartServer \<and> (\<exists>e. oc = Rejected e) \<and> (\<forall>h. server s \<noteq> JHandle h)))"
  using assms
  by (induction k oc s rule: resume.induct)
     (auto simp: prim_defs listener_defs Let_def split: option.splits jsval.splits)

text \<open>
  C5, as stated, fails: \<^verbatim>\<open>setInterval\<close> is called by every start request and nothing
  stops the timer of an earlier one.  After two start requests two timers run, and
  \<^verbatim>\<open>logWatcher\<close> holds the handle of the second only.
\<close>

theorem second_start_second_timer_counterexample:
  "timers (run (initial [7 \<mapsto> []]) [IpcStartServer 7, IpcStartServer 7]) = {0, 1}
   \<and> card (timers (run (initial [7 \<mapsto> []]) [IpcStartServer 7, IpcStartServer 7])) = 2
   \<and> logWatcher (run (initial [7 \<mapsto> []]) [IpcStartServer 7, IpcStartServer 7]) = Some 1"
  by (auto simp: eval_defs)

text \<open>
  C5, amended.  Every start request starts one more timer, a new one, and stores its
  handle; the timers that were running keep running.  So the start is not idempotent, and
  at most one timer runs (the one whose handle is stored) only as long as no start request
  arrives while a timer is running: under that condition every step, whatever the input,
  keeps \<open>single_timer\<close>.  A running timer is stopped only by the stop listener and
  by the failure path of the start listener (when their \<^verbatim>\<open>close\<close> throws, or when the
  close they await settles), and the timer they stop is the one whose handle is stored.
\<close>

theorem start_creates_timer:
  assumes "wf s"
  shows "(\<forall>ob. heap s a = Some ob \<longrightarrow>
            next_timer s \<notin> timers s
          \<and> timers (step s (IpcStartServer a)) = insert (next_timer s) (timers s)
          \<and> logWatcher (step s (IpcStartServer a)) = Some (next_timer s))
       \<and> (single_timer s \<and> (\<forall>a'. i = IpcStartServer a' \<longrightarrow> timers s = {})
            \<longrightarrow> single_timer (step s i))
       \<and> (\<forall>t. t \<in> timers s \<and> t \<notin> timers (step s i) \<longrightarrow>
            logWatcher s = Some t
          \<and> (i = IpcStopServer \<and> (\<forall>h. server s \<noteq> JHandle h)
             \<or> (\<exists>p oc. i = Settle p oc
                  \<and> (map_of (pending s) p = Some StopClose
                     \<or> map_of (pending s) p = Some StartClose
                     \<or> map_of (pending s) p = Some StartServer \<and> (\<exists>e. oc = Rejected e)
                        \<and> (\<forall>h. server s \<noteq> JHandle h)))))"
proof (intro conjI allI impI)
  show "next_timer s \<notin> timers s" using assms by (auto simp: wf_def)
next
  fix ob assume "heap s a = Some ob"
  then show "timers (step s (IpcStartServer a)) = insert (next_timer s) (timers s)"
    and "logWatcher (step s (IpcStartServer a)) = Some (next_timer s)"
    by (simp_all add: connectStartServer_def prim_defs Let_def)
next
  assume h: "single_timer s \<and> (\<forall>a'. i = IpcStartServer a' \<longrightarrow> timers s = {})"
  show "single_timer (step s i)"
  proof (cases i)
    case (Settle p oc)
    have "single_timer (s\<lparr>pending := AList.delete p (pending s)\<rparr>)"
      using h by (simp add: single_timer_def)
    then show ?thesis
      using Settle h by (simp add: single_timer_resume split: option.splits)
  qed (use h in \<open>auto simp: single_timer_def prim_defs listener_defs Let_def
         split: option.splits jsval.splits\<close>)
next
  fix t assume t: "t \<in> timers s \<and> t \<notin> timers (step s i)"
  have "logWatcher s = Some t
          \<and> (i = IpcStopServer \<and> (\<forall>h. server s \<noteq> JHandle h)
             \<or> (\<exists>p oc. i = Settle p oc
                  \<and> (map_of (pending s) p = Some StopClose
                     \<or> map_of (pending s) p = Some StartClose
                     \<or> map_of (pending s) p = Some StartServer \<and> (\<exists>e. oc = Rejected e)
                        \<and> (\<forall>h. server s \<noteq> JHandle h))))"
  proof (cases i)
    case (Settle p oc)
    show ?thesis
    proof (cases "map_of (pending s) p")
      case None
      with Settle t show ?thesis by simp
    next
      case (Some k)
      let ?s = "s\<lparr>pending := AList.delete p (pending s)\<rparr>"
      have "t \<in> timers ?s" "t \<notin> timers (resume k oc ?s)"
        using t Settle Some by simp_all
      from timers_resume [OF this] Settle Some show ?thesis by auto
    qed
  qed (use t in \<open>auto simp: prim_defs listener_defs Let_def
         split: option.splits jsval.splits if_splits\<close>)
  then show "logWatcher s = Some t"
    and "i = IpcStopServer \<and> (\<forall>h. server s \<noteq> JHandle h)
             \<or> (\<exists>p oc. i = Settle p oc
                  \<and> (map_of (pending s) p = Some StopClose
                     \<or> map_of (pending s) p = Some StartClose
                     \<or> map_of (pending s) p = Some StartServer \<and> (\<exists>e. oc = Rejected e)
                        \<and> (\<forall>h. server s \<noteq> JHandle h)))"
    by blast+
qed

theorem start_creates_timer_witness:
  "timers (run (initial [7 \<mapsto> []]) [IpcStartServer 7]) = {0}
   \<and> single_timer (run (initial [7 \<mapsto> []]) [IpcStartServer 7])
   \<and> timers (run (initial [7 \<mapsto> []]) [IpcStartServer 7, IpcStartServer 7]) = {0, 1}
   \<and> logWatcher (run (initial [7 \<mapsto> []]) [IpcStartServer 7, IpcStartServer 7]) = Some 1
   \<and> 0 \<in> timers (run (initial [7 \<mapsto> []]) [IpcStartServer 7])
   \<and> 0 \<notin> timers (run (initial [7 \<mapsto> []]) [IpcStartServer 7, IpcStopServer])
   \<and> logWatcher (run (initial [7 \<mapsto> []]) [IpcStartServer 7]) = Some 0"
proof -
  let ?s0 = "initial [7 \<mapsto> []]"
  let ?s1 = "run ?s0 [IpcStartServer 7]"
  have w0: "wf ?s0" by (rule wf_initial)
  have w1: "wf ?s1" by (rule wf_reachable)
  have h0: "heap ?s0 7 = Some []" by (simp add: initial_def)
  have c0: "single_timer ?s0" "timers ?s0 = {}" by (simp_all add: single_timer_def initial_def)
  have h1: "heap ?s1 7 = Some (normalize_args [])" by (simp add: eval_defs)
  have t1: "0 \<in> timers ?s1" "0 \<notin> timers (step ?s1 IpcStopServer)" by (simp_all add: eval_defs)
  from start_creates_timer [OF w0, where a = 7 and i = "IpcStartServer 7"] h0 c0
    start_creates_timer [OF w1, where a = 7 and i = IpcStopServer] h1 t1
  show ?thesis by (auto simp: eval_defs)
qed

text \<open>
  C6.  A stop request calls \<^verbatim>\<open>close\<close> on the stored server handle.  Whatever else runs
  while the listener is suspended, when the close settles the main window is sent
  \<^verbatim>\<open>appium-stop-ok\<close> if it resolved and \<^verbatim>\<open>appium-stop-error\<close> with the message of the
  failure if it rejected, and in both cases the timer whose handle is stored is cleared.
  When no server handle is stored the call itself throws: the error is sent and the timer
  is cleared in the same turn.
\<close>

theorem stop_server_acks:
  assumes "wf s" and "\<forall>i \<in> set ins. \<forall>oc'. i \<noteq> Settle (next_promise s) oc'"
  shows "(\<forall>h. server s = JHandle h \<longrightarrow>
            (let s1 = step s IpcStopServer; s2 = run s1 ins;
                 s3 = step s2 (Settle (next_promise s) oc)
             in trace s1 = trace s @ [Invoke (next_promise s) (ServerClose h)]
              \<and> timers s1 = timers s
              \<and> trace s3 = trace s2 @ [Send Win (case oc of Resolved v \<Rightarrow> AppiumStopOk
                                           | Rejected e \<Rightarrow> AppiumStopError (message e))]
              \<and> timers s3 = timers s2 - set_option (logWatcher s2)))
       \<and> ((\<forall>h. server s \<noteq> JHandle h) \<longrightarrow>
            trace (step s IpcStopServer)
              = trace s @ [Send Win (AppiumStopError (message (TypeError ''close'')))]
          \<and> timers (step s IpcStopServer) = timers s - set_option (logWatcher s))"
proof (intro conjI allI impI)
  fix h assume h: "server s = JHandle h"
  define s1 where "s1 = step s IpcStopServer"
  define s2 where "s2 = run s1 ins"
  have s1: "s1 = await (ServerClose h) StopClose s"
    using h by (simp add: s1_def connectStopServer_def server_close_def)
  have "map_of (pending s1) (next_promise s) = Some StopClose"
    unfolding s1 by (rule pending_await [OF assms(1)])
  then have p2: "map_of (pending s2) (next_promise s) = Some StopClose"
    unfolding s2_def using assms(2) by (rule pending_run)
  have a: "trace s1 = trace s @ [Invoke (next_promise s) (ServerClose h)]"
    and b: "timers s1 = timers s"
    by (simp_all add: s1 await_def)
  have c: "trace (step s2 (Settle (next_promise s) oc))
      = trace s2 @ [Send Win (case oc of Resolved v \<Rightarrow> AppiumStopOk
                               | Rejected e \<Rightarrow> AppiumStopError (message e))]"
    using p2 by (cases oc) (simp_all add: prim_defs)
  have d: "timers (step s2 (Settle (next_promise s) oc)) = timers s2 - set_option (logWatcher s2)"
    using p2 by (cases oc) (simp_all add: prim_defs)
  show "let s1 = step s IpcStopServer; s2 = run s1 ins;
                 s3 = step s2 (Settle (next_promise s) oc)
             in trace s1 = trace s @ [Invoke (next_promise s) (ServerClose h)]
              \<and> timers s1 = timers s
              \<and> trace s3 = trace s2 @ [Send Win (case oc of Resolved v \<Rightarrow> AppiumStopOk
                                           | Rejected e \<Rightarrow> AppiumStopError (message e))]
              \<and> timers s3 = timers s2 - set_option (logWatcher s2)"
    unfolding Let_def s1_def [symmetric] s2_def [symmetric]
    using a b c d by blast
next
  assume "\<forall>h. server s \<noteq> JHandle h"
  then have c: "server_close StopClose s = Inl (TypeError ''close'')"
    by (simp add: server_close_def split: jsval.splits)
  show "trace (step s IpcStopServer)
              = trace s @ [Send Win (AppiumStopError (message (TypeError ''close'')))]"
    by (simp add: connectStopServer_def c prim_defs)
  show "timers (step s IpcStopServer) = timers s - set_option (logWatcher s)"
    by (simp add: connectStopServer_def c prim_defs)
qed

theorem stop_server_acks_witness:
  "received Win (run (initial [7 \<mapsto> []])
      [IpcStartServer 7, Settle 0 (Resolved (JHandle 1)), IpcStopServer,
       Log (JStr ''info'') (JStr ''closing''), Settle 1 (Rejected (Failure ''not running''))])
     = [AppiumStartOk, AppiumStopError ''not running'']
   \<and> timers (run (initial [7 \<mapsto> []])
      [IpcStartServer 7, Settle 0 (Resolved (JHandle 1)), IpcStopServer,
       Log (JStr ''info'') (JStr ''closing''), Settle 1 (Rejected (Failure ''not running''))])
     = {}
   \<and> received Win (run (initial [7 \<mapsto> []])
      [IpcStartServer 7, Settle 0 (Resolved (JHandle 1)), IpcStopServer,
       Settle 1 (Resolved JUndefined)])
     = [AppiumStartOk, AppiumStopOk]
   \<and> timers (run (initial [7 \<mapsto> []])
      [IpcStartServer 7, Settle 0 (Resolved (JHandle 1)), IpcStopServer,
       Settle 1 (Resolved JUndefined)])
     = {}"
proof -
  let ?s = "run (initial [7 \<mapsto> []]) [IpcStartServer 7, Settle 0 (Resolved (JHandle 1))]"
  have w: "wf ?s" by (rule wf_reachable)
  have h: "server ?s = JHandle 1" by (simp add: eval_defs)
  have i: "\<forall>i \<in> set [Log (JStr ''info'') (JStr ''closing'')].
             \<forall>oc'. i \<noteq> Settle (next_promise ?s) oc'" by simp
  have i0: "\<forall>i \<in> set []. \<forall>oc'. i \<noteq> Settle (next_promise ?s) oc'" by simp
  from stop_server_acks [OF w i, where oc = "Rejected (Failure ''not running'')"]
    stop_server_acks [OF w i0, where oc = "Resolved JUndefined"] h
  show ?thesis by (simp add: eval_defs)
qed

lemma quiet_resume:
  assumes "k \<noteq> StartServer"
    and "timers s \<subseteq> {t}" and "logWatcher s = Some t" and "server s = v"
    and "\<forall>p. map_of (pending s) p = Some StartServer \<longrightarrow> p = q"
  shows "timers (resume k oc s) \<subseteq> {t} \<and> logWatcher (resume k oc s) = Some t
       \<and> server (resume k oc s) = v
       \<and> (\<forall>p. map_of (pending (resume k oc s)) p = Some StartServer \<longrightarrow> p = q)"
  using assms
  by (induction k oc s rule: resume.induct)
     (auto simp: prim_defs listener_defs Let_def map_add_Some_iff
           split: option.splits jsval.splits)

lemma quiet_step:
  assumes "\<forall>a'. i \<noteq> IpcStartServer a'" and "\<forall>oc. i \<noteq> Settle q oc"
    and "timers s \<subseteq> {t}" and "logWatcher s = Some t" and "server s = v"
    and "\<forall>p. map_of (pending s) p = Some StartServer \<longrightarrow> p = q"
  shows "timers (step s i) \<subseteq> {t} \<and> logWatcher (step s i) = Some t
       \<and> server (step s i) = v
       \<and> (\<forall>p. map_of (pending (step s i)) p = Some StartServer \<longrightarrow> p = q)"
proof (cases i)
  case (Settle p oc)
  with assms(2) have neq: "p \<noteq> q" by auto
  show ?thesis
  proof (cases "map_of (pending s) p")
    case None
    with Settle assms show ?thesis by simp
  next
    case (Some k)
    with assms(6) neq have k: "k \<noteq> StartServer" by auto
    let ?s = "s\<lparr>pending := AList.delete p (pending s)\<rparr>"
    have "\<forall>p'. map_of (pending ?s) p' = Some StartServer \<longrightarrow> p' = q"
      using assms(6) by (auto simp: delete_conv' split: if_splits)
    from quiet_resume [OF k _ _ _ this, of t v oc] assms(3-5) Settle Some
    show ?thesis by simp
  qed
next
  case (IpcStartServer a')
  with assms(1) show ?thesis by simp
qed (use assms(3-6) in \<open>auto simp: prim_defs listener_defs Let_def map_add_Some_iff
       split: option.splits jsval.splits\<close>)

lemma quiet_run:
  assumes "\<forall>i \<in> set ins. \<forall>a'. i \<noteq> IpcStartServer a'" and "\<forall>i \<in> set ins. \<forall>oc. i \<noteq> Settle q oc"
    and "timers s \<subseteq> {t}" and "logWatcher s = Some t" and "server s = v"
    and "\<forall>p. map_of (pending s) p = Some StartServer \<longrightarrow> p = q"
  shows "timers (run s ins) \<subseteq> {t} \<and> logWatcher (run s ins) = Some t \<and> server (run s ins) = v"
  using assms
proof (induction ins arbitrary: s)
  case Nil
  then show ?case by (simp add: run_def)
next
  case (Cons i ins)
  have "timers (step s i) \<subseteq> {t} \<and> logWatcher (step s i) = Some t
       \<and> server (step s i) = v
       \<and> (\<forall>p. map_of (pending (step s i)) p = Some StartServer \<longrightarrow> p = q)"
    using Cons.prems by (intro quiet_step) simp_all
  with Cons.IH [of "step s i"] Cons.prems(1,2)
  show ?case by (simp add: run_def)
qed

text \<open>
  C8, as stated, fails for a start request that arrives while an earlier server runs.
  The second bring-up fails (the port is taken); the listener reports the error, calls
  \<^verbatim>\<open>close\<close> on the handle of the first server, which is the one \<^verbatim>\<open>server\<close> holds, and
  clears the second timer.  The first timer keeps running and \<^verbatim>\<open>server\<close> keeps the
  handle: an active log timer and a server handle are left.
\<close>

theorem start_failure_counterexample:
  "pending (run (initial [7 \<mapsto> []])
      [IpcStartServer 7, Settle 0 (Resolved (JHandle 1)), IpcStartServer 7,
       Settle 1 (Rejected (Failure ''EADDRINUSE'')), Settle 2 (Resolved JUndefined)]) = []
   \<and> timers (run (initial [7 \<mapsto> []])
      [IpcStartServer 7, Settle 0 (Resolved (JHandle 1)), IpcStartServer 7,
       Settle 1 (Rejected (Failure ''EADDRINUSE'')), Settle 2 (Resolved JUndefined)]) = {0}
   \<and> server (run (initial [7 \<mapsto> []])
      [IpcStartServer 7, Settle 0 (Resolved (JHandle 1)), IpcStartServer 7,
       Settle 1 (Rejected (Failure ''EADDRINUSE'')), Settle 2 (Resolved JUndefined)]) = JHandle 1
   \<and> trace (run (initial [7 \<mapsto> []])
      [IpcStartServer 7, Settle 0 (Resolved (JHandle 1)), IpcStartServer 7,
       Settle 1 (Rejected (Failure ''EADDRINUSE'')), Settle 2 (Resolved JUndefined)])
      = [Invoke 0 (AppiumServer 7), Send Win AppiumStartOk, Invoke 1 (AppiumServer 7),
         Send Win (AppiumStartError ''EADDRINUSE''), Invoke 2 (ServerClose 1)]"
  by (simp add: eval_defs)

text \<open>
  C8, amended.  When the bring-up awaited by a start listener fails, the listener sends
  \<^verbatim>\<open>appium-start-error\<close> with the message of the failure to the main window and calls
  \<^verbatim>\<open>close\<close> on whatever \<^verbatim>\<open>server\<close> holds at that moment: the handle of an earlier
  start, or nothing (a failed bring-up assigns no handle).  With a handle, the close is
  awaited; when it settles, resolved or rejected, nothing is sent and the timer whose
  handle is stored is cleared.  Without a handle the call throws, the throw is swallowed,
  and the timer is cleared in the same turn, \<^verbatim>\<open>server\<close> unchanged.  For a start request
  that arrives with no server handle stored, no timer running and no other bring-up
  pending, and whose bring-up fails before any other start request arrives (anything else
  may happen in between), no timer runs and no server handle is stored afterwards.
\<close>

theorem start_failure_cleanup:
  assumes "wf s" and "heap s a = Some ob"
    and "\<forall>i \<in> set ins1. \<forall>oc. i \<noteq> Settle (next_promise s) oc"
  shows "let s1 = step s (IpcStartServer a); s2 = run s1 ins1;
             s3 = step s2 (Settle (next_promise s) (Rejected e))
         in (\<forall>h. server s2 = JHandle h \<longrightarrow>
               trace s3 = trace s2 @ [Send Win (AppiumStartError (message e)),
                                      Invoke (next_promise s2) (ServerClose h)]
             \<and> timers s3 = timers s2
             \<and> (\<forall>ins2 oc. (\<forall>i \<in> set ins2. \<forall>oc'. i \<noteq> Settle (next_promise s2) oc') \<longrightarrow>
                   trace (step (run s3 ins2) (Settle (next_promise s2) oc)) = trace (run s3 ins2)
                 \<and> timers (step (run s3 ins2) (Settle (next_promise s2) oc))
                     = timers (run s3 ins2) - set_option (logWatcher (run s3 ins2))))
          \<and> ((\<forall>h. server s2 \<noteq> JHandle h) \<longrightarrow>
               trace s3 = trace s2 @ [Send Win (AppiumStartError (message e))]
             \<and> timers s3 = timers s2 - set_option (logWatcher s2)
             \<and> server s3 = server s2)
          \<and> (server s = JNull \<and> timers s = {}
               \<and> (\<forall>p. map_of (pending s) p \<noteq> Some StartServer)
               \<and> (\<forall>i \<in> set ins1. \<forall>a'. i \<noteq> IpcStartServer a') \<longrightarrow>
               timers s3 = {} \<and> server s3 = JNull)"
proof -
  define s1 where "s1 = step s (IpcStartServer a)"
  define s2 where "s2 = run s1 ins1"
  define s0 where "s0 = s2\<lparr>pending := AList.delete (next_promise s) (pending s2)\<rparr>"
  define s0' where "s0' = send Win (AppiumStartError (message e)) s0"
  define s3 where "s3 = step s2 (Settle (next_promise s) (Rejected e))"
  have s1: "s1 = await (AppiumServer a) StartServer
      ((setInterval (s\<lparr>heap := (heap s)(a \<mapsto> normalize_args ob)\<rparr>))\<lparr>serverArgs := Some a\<rparr>)"
    using assms(2) by (simp add: s1_def connectStartServer_def Let_def)
  have "wf ((setInterval (s\<lparr>heap := (heap s)(a \<mapsto> normalize_args ob)\<rparr>))\<lparr>serverArgs := Some a\<rparr>)"
    using assms(1) by (simp add: wf_upd wf_setInterval)
  from pending_await [OF this]
  have "map_of (pending s1) (next_promise s) = Some StartServer"
    by (simp add: s1 setInterval_def)
  then have p2: "map_of (pending s2) (next_promise s) = Some StartServer"
    unfolding s2_def using assms(3) by (rule pending_run)
  have "wf s1" unfolding s1_def by (rule wf_step [OF assms(1)])
  then have "wf s2" unfolding s2_def by (rule wf_run)
  then have "wf s0" unfolding s0_def by (rule wf_drop)
  then have wf0': "wf s0'" by (simp add: s0'_def wf_send)
  have s3: "s3 = (case server_close StartClose s0' of Inr s' \<Rightarrow> s' | Inl ign \<Rightarrow> clearInterval s0')"
    using p2 by (simp add: s3_def s0_def s0'_def Let_def split: sum.splits)
  have f0: "trace s0' = trace s2 @ [Send Win (AppiumStartError (message e))]"
    "timers s0' = timers s2" "logWatcher s0' = logWatcher s2" "server s0' = server s2"
    "next_promise s0' = next_promise s2"
    by (simp_all add: s0'_def s0_def prim_defs)
  have A: "\<forall>h. server s2 = JHandle h \<longrightarrow>
               trace s3 = trace s2 @ [Send Win (AppiumStartError (message e)),
                                      Invoke (next_promise s2) (ServerClose h)]
             \<and> timers s3 = timers s2
             \<and> (\<forall>ins2 oc. (\<forall>i \<in> set ins2. \<forall>oc'. i \<noteq> Settle (next_promise s2) oc') \<longrightarrow>
                   trace (step (run s3 ins2) (Settle (next_promise s2) oc)) = trace (run s3 ins2)
                 \<and> timers (step (run s3 ins2) (Settle (next_promise s2) oc))
                     = timers (run s3 ins2) - set_option (logWatcher (run s3 ins2)))"
  proof (intro allI impI)
    fix h assume h: "server s2 = JHandle h"
    have s3': "s3 = await (ServerClose h) StartClose s0'"
      using h f0(4) by (simp add: s3 server_close_def)
    have p3: "map_of (pending s3) (next_promise s2) = Some StartClose"
      using pending_await [OF wf0'] by (simp add: s3' f0(5))
    have "trace s3 = trace s2 @ [Send Win (AppiumStartError (message e)),
                                      Invoke (next_promise s2) (ServerClose h)]"
      "timers s3 = timers s2"
      using f0 by (simp_all add: s3' await_def)
    moreover have "\<forall>ins2 oc. (\<forall>i \<in> set ins2. \<forall>oc'. i \<noteq> Settle (next_promise s2) oc') \<longrightarrow>
                   trace (step (run s3 ins2) (Settle (next_promise s2) oc)) = trace (run s3 ins2)
                 \<and> timers (step (run s3 ins2) (Settle (next_promise s2) oc))
                     = timers (run s3 ins2) - set_option (logWatcher (run s3 ins2))"
    proof (intro allI impI)
      fix ins2 oc assume "\<forall>i \<in> set ins2. \<forall>oc'. i \<noteq> Settle (next_promise s2) oc'"
      with p3 have "map_of (pending (run s3 ins2)) (next_promise s2) = Some StartClose"
        by (rule pending_run)
      then show "trace (step (run s3 ins2) (Settle (next_promise s2) oc)) = trace (run s3 ins2)
                 \<and> timers (step (run s3 ins2) (Settle (next_promise s2) oc))
                     = timers (run s3 ins2) - set_option (logWatcher (run s3 ins2))"
        by (simp add: clearInterval_def)
    qed
    ultimately show "trace s3 = trace s2 @ [Send Win (AppiumStartError (message e)),
                                      Invoke (next_promise s2) (ServerClose h)]
             \<and> timers s3 = timers s2
             \<and> (\<forall>ins2 oc. (\<forall>i \<in> set ins2. \<forall>oc'. i \<noteq> Settle (next_promise s2) oc') \<longrightarrow>
                   trace (step (run s3 ins2) (Settle (next_promise s2) oc)) = trace (run s3 ins2)
                 \<and> timers (step (run s3 ins2) (Settle (next_promise s2) oc))
                     = timers (run s3 ins2) - set_option (logWatcher (run s3 ins2)))"
      by blast
  qed
  have B: "(\<forall>h. server s2 \<noteq> JHandle h) \<longrightarrow>
               trace s3 = trace s2 @ [Send Win (AppiumStartError (message e))]
             \<and> timers s3 = timers s2 - set_option (logWatcher s2)
             \<and> server s3 = server s2"
  proof
    assume "\<forall>h. server s2 \<noteq> JHandle h"
    then have "server_close StartClose s0' = Inl (TypeError ''close'')"
      using f0(4) by (simp add: server_close_def split: jsval.splits)
    then have "s3 = clearInterval s0'" by (simp add: s3)
    then show "trace s3 = trace s2 @ [Send Win (AppiumStartError (message e))]
             \<and> timers s3 = timers s2 - set_option (logWatcher s2)
             \<and> server s3 = server s2"
      using f0 by (simp add: clearInterval_def)
  qed
  have C: "server s = JNull \<and> timers s = {}
               \<and> (\<forall>p. map_of (pending s) p \<noteq> Some StartServer)
               \<and> (\<forall>i \<in> set ins1. \<forall>a'. i \<noteq> IpcStartServer a') \<longrightarrow>
               timers s3 = {} \<and> server s3 = JNull"
  proof
    assume c: "server s = JNull \<and> timers s = {}
               \<and> (\<forall>p. map_of (pending s) p \<noteq> Some StartServer)
               \<and> (\<forall>i \<in> set ins1. \<forall>a'. i \<noteq> IpcStartServer a')"
    have "timers s1 \<subseteq> {next_timer s}" "logWatcher s1 = Some (next_timer s)" "server s1 = JNull"
      using c by (simp_all add: s1 prim_defs)
    moreover have "\<forall>p. map_of (pending s1) p = Some StartServer \<longrightarrow> p = next_promise s"
      using c by (auto simp: s1 prim_defs map_add_Some_iff split: if_splits)
    ultimately have "timers s2 \<subseteq> {next_timer s} \<and> logWatcher s2 = Some (next_timer s)
        \<and> server s2 = JNull"
      unfolding s2_def using c assms(3) by (intro quiet_run) simp_all
    with B show "timers s3 = {} \<and> server s3 = JNull" by auto
  qed
  show ?thesis
    unfolding Let_def s1_def [symmetric] s2_def [symmetric] s3_def [symmetric]
    using A B C by blast
qed

theorem start_failure_cleanup_witness:
  "received Win (run (initial [7 \<mapsto> []])
      [IpcStartServer 7, Log (JStr ''info'') (JStr ''starting''), Tick 0,
       Settle 0 (Rejected (Failure ''EACCES''))])
     = [AppiumLogLine [(JStr ''info'', JStr ''starting'')], AppiumStartError ''EACCES'']
   \<and> timers (run (initial [7 \<mapsto> []])
      [IpcStartServer 7, Log (JStr ''info'') (JStr ''starting''), Tick 0,
       Settle 0 (Rejected (Failure ''EACCES''))]) = {}
   \<and> server (run (initial [7 \<mapsto> []])
      [IpcStartServer 7, Log (JStr ''info'') (JStr ''starting''), Tick 0,
       Settle 0 (Rejected (Failure ''EACCES''))]) = JNull
   \<and> trace (run (initial [7 \<mapsto> []])
      [IpcStartServer 7, Settle 0 (Resolved (JHandle 1)), IpcStopServer,
       Settle 1 (Rejected (Failure ''busy'')), IpcStartServer 7,
       Settle 2 (Rejected (Failure ''EADDRINUSE'')), Settle 3 (Rejected (Failure ''busy''))])
     = [Invoke 0 (AppiumServer 7), Send Win AppiumStartOk, Invoke 1 (ServerClose 1),
        Send Win (AppiumStopError ''busy''), Invoke 2 (AppiumServer 7),
        Send Win (AppiumStartError ''EADDRINUSE''), Invoke 3 (ServerClose 1)]
   \<and> timers (run (initial [7 \<mapsto> []])
      [IpcStartServer 7, Settle 0 (Resolved (JHandle 1)), IpcStopServer,
       Settle 1 (Rejected (Failure ''busy'')), IpcStartServer 7,
       Settle 2 (Rejected (Failure ''EADDRINUSE'')), Settle 3 (Rejected (Failure ''busy''))])
     = {}"
proof -
  let ?s0 = "initial [7 \<mapsto> []]"
  let ?ins = "[Log (JStr ''info'') (JStr ''starting''), Tick 0]"
  let ?s1 = "run ?s0 [IpcStartServer 7, Settle 0 (Resolved (JHandle 1)), IpcStopServer,
                      Settle 1 (Rejected (Failure ''busy''))]"
  have w: "wf ?s0" by (rule wf_initial)
  have h: "heap ?s0 7 = Some []" by (simp add: initial_def)
  have i: "\<forall>i \<in> set ?ins. \<forall>oc. i \<noteq> Settle (next_promise ?s0) oc" by simp
  have c: "server ?s0 = JNull" "timers ?s0 = {}"
    "\<forall>p. map_of (pending ?s0) p \<noteq> Some StartServer"
    "\<forall>i \<in> set ?ins. \<forall>a'. i \<noteq> IpcStartServer a'"
    by (simp_all add: initial_def)
  have w1: "wf ?s1" by (rule wf_reachable)
  have h1: "heap ?s1 7 = Some (normalize_args [])"
    by (simp add: eval_defs)
  have i1: "\<forall>i \<in> set []. \<forall>oc. i \<noteq> Settle (next_promise ?s1) oc" by simp
  have c1: "server (run (step ?s1 (IpcStartServer 7)) []) = JHandle 1"
    by (simp add: eval_defs)
  from start_failure_cleanup [OF w h i, where e = "Failure ''EACCES''"] c
    start_failure_cleanup [OF w1 h1 i1, where e = "Failure ''EADDRINUSE''"] c1
  show ?thesis by (simp add: eval_defs delivered_def)
qed

lemma map_of_normalize_args:
  "map_of (normalize_args ob) =
     ((if truthy (get_prop ob ''defaultCapabilities'')
          \<and> keys_length (get_prop ob ''defaultCapabilities'') = 0
       then (map_of ob)(''defaultCapabilities'' := None) else map_of ob)
      (''logHandler'' \<mapsto> JLogHandler))(''throwInsteadOfExit'' \<mapsto> JBool True)"
  by (simp add: normalize_args_def Let_def update_conv' delete_conv')

text \<open>
  C10.  A start request works on the object it is handed, not on a copy.  The object at the
  address of the payload is replaced by its normalized form and no other address changes;
  the same address is stored in \<^verbatim>\<open>serverArgs\<close> and passed to the server.  In the
  normalized object \<^verbatim>\<open>logHandler\<close> is the log sink and \<^verbatim>\<open>throwInsteadOfExit\<close> is
  true; \<^verbatim>\<open>defaultCapabilities\<close> is absent if it was an empty object and unchanged if it
  was a non-empty one; every other property is as before.
\<close>

theorem start_server_mutates_args:
  assumes "heap s a = Some ob"
  shows "heap (step s (IpcStartServer a)) = (heap s)(a \<mapsto> normalize_args ob)
    \<and> serverArgs (step s (IpcStartServer a)) = Some a
    \<and> trace (step s (IpcStartServer a)) = trace s @ [Invoke (next_promise s) (AppiumServer a)]
    \<and> map_of (normalize_args ob) ''logHandler'' = Some JLogHandler
    \<and> map_of (normalize_args ob) ''throwInsteadOfExit'' = Some (JBool True)
    \<and> (get_prop ob ''defaultCapabilities'' = JObj [] \<longrightarrow>
          map_of (normalize_args ob) ''defaultCapabilities'' = None)
    \<and> (\<forall>kv kvs. get_prop ob ''defaultCapabilities'' = JObj (kv # kvs) \<longrightarrow>
          map_of (normalize_args ob) ''defaultCapabilities'' = Some (JObj (kv # kvs)))
    \<and> (\<forall>k. k \<notin> {''defaultCapabilities'', ''logHandler'', ''throwInsteadOfExit''} \<longrightarrow>
          map_of (normalize_args ob) k = map_of ob k)"
proof -
  have "heap (step s (IpcStartServer a)) = (heap s)(a \<mapsto> normalize_args ob)"
    and "serverArgs (step s (IpcStartServer a)) = Some a"
    and "trace (step s (IpcStartServer a)) = trace s @ [Invoke (next_promise s) (AppiumServer a)]"
    using assms by (simp_all add: connectStartServer_def prim_defs Let_def)
  moreover have "\<forall>kv kvs. get_prop ob ''defaultCapabilities'' = JObj (kv # kvs) \<longrightarrow>
          map_of (normalize_args ob) ''defaultCapabilities'' = Some (JObj (kv # kvs))"
    by (auto simp: map_of_normalize_args get_prop_def split: option.splits)
  ultimately show ?thesis
    by (simp add: map_of_normalize_args)
qed

theorem start_server_mutates_args_witness:
  "heap (step (initial [7 \<mapsto> [(''port'', JNum 4723), (''defaultCapabilities'', JObj [])]])
           (IpcStartServer 7)) 7
     = Some [(''port'', JNum 4723), (''logHandler'', JLogHandler),
             (''throwInsteadOfExit'', JBool True)]
   \<and> serverArgs (step (initial [7 \<mapsto> [(''port'', JNum 4723), (''defaultCapabilities'', JObj [])]])
           (IpcStartServer 7)) = Some 7"
proof -
  have h: "heap (initial [7 \<mapsto> [(''port'', JNum 4723), (''defaultCapabilities'', JObj [])]]) 7
      = Some [(''port'', JNum 4723), (''defaultCapabilities'', JObj [])]"
    by (simp add: initial_def)
  from start_server_mutates_args [OF h]
  show ?thesis by (simp add: normalize_args_def get_prop_def)
qed

end
